theory Spec2Isabelle
  imports Main "HOL-Library.Multiset"
begin

section \<open>The scraper execution manager of \<^verbatim>\<open>backend/scraper_manager.py\<close>\<close>

text \<open>
  The development embeds the classes \<^verbatim>\<open>LogCapture\<close> and \<^verbatim>\<open>ScraperManager\<close> and the two
  run-record statements of \<^verbatim>\<open>backend/database.py\<close> they call. Python strings are
  \<^typ>\<open>string\<close> (code points below 256), Python integers are \<^typ>\<open>int\<close>, an exception is a
  value, and every method takes the state it reads and returns the state it leaves.
\<close>

subsection \<open>Strings\<close>

text \<open>
  \<^verbatim>\<open>str.isspace\<close> on the code points below 256: the ASCII control characters
  9 to 13 and 28 to 31, the space, NEL (133) and the no-break space (160).
\<close>

definition isspace :: "char \<Rightarrow> bool" where
  "isspace c \<longleftrightarrow> (of_char c :: nat) \<in> {9, 10, 11, 12, 13, 28, 29, 30, 31, 32, 133, 160}"

text \<open>\<^verbatim>\<open>s.strip()\<close>: leading and trailing whitespace removed.\<close>

definition strip :: "string \<Rightarrow> string" where
  "strip s = dropWhile isspace (rev (dropWhile isspace (rev s)))"

text \<open>\<^verbatim>\<open>s.rstrip(chars)\<close>: the trailing characters that occur in \<open>chars\<close> removed.\<close>

definition rstrip :: "string \<Rightarrow> string \<Rightarrow> string" where
  "rstrip chars s = rev (dropWhile (\<lambda>c. c \<in> set chars) (rev s))"

abbreviation newline :: string where
  "newline \<equiv> [CHR 0x0A]"

text \<open>\<^verbatim>\<open>sep.join(xs)\<close>.\<close>

fun str_join :: "string \<Rightarrow> string list \<Rightarrow> string" where
  "str_join sep [] = []"
| "str_join sep [x] = x"
| "str_join sep (x # y # ys) = x @ sep @ str_join sep (y # ys)"

text \<open>\<^verbatim>\<open>str(n)\<close> of an integer: its decimal digits, with a minus sign below zero.\<close>

function str_nat :: "nat \<Rightarrow> string" where
  "str_nat n =
     (if n < 10 then [char_of (48 + n)]
      else str_nat (n div 10) @ [char_of (48 + n mod 10)])"
  by pat_completeness auto
termination
  by (relation "measure id") auto

declare str_nat.simps [simp del]

definition str_int :: "int \<Rightarrow> string" where
  "str_int i = (if i < 0 then CHR ''-'' # str_nat (nat (- i)) else str_nat (nat i))"

subsection \<open>LogCapture\<close>

text \<open>
  The buffer is the list \<^verbatim>\<open>lines\<close>. Its lock makes \<^verbatim>\<open>write\<close> and \<^verbatim>\<open>get_logs\<close> atomic,
  which a function from state to state is.
\<close>

record LogCapture =
  lines :: "string list"

definition LogCapture_init :: LogCapture where
  "LogCapture_init = \<lparr>lines = []\<rparr>"

definition write_lc :: "LogCapture \<Rightarrow> string \<Rightarrow> LogCapture" where
  "write_lc lc message =
     (if strip message \<noteq> [] then lc\<lparr>lines := lines lc @ [rstrip newline message]\<rparr>
      else lc)"

definition get_logs :: "LogCapture \<Rightarrow> string" where
  "get_logs lc = str_join newline (lines lc)"

text \<open>A sequence of \<^verbatim>\<open>write\<close> calls, in order.\<close>

definition writes :: "LogCapture \<Rightarrow> string list \<Rightarrow> LogCapture" where
  "writes lc messages = foldl write_lc lc messages"

text \<open>A text is blank when it is empty or all whitespace.\<close>

definition blank :: "string \<Rightarrow> bool" where
  "blank s \<longleftrightarrow> list_all isspace s"

subsection \<open>Counting stories in the captured text\<close>

text \<open>
  \<^verbatim>\<open>re.findall(r'Processing story (\d+)', logs)\<close>. The pattern is a literal followed by
  a greedy, non-empty run of decimal digits, so a match at a position is decided without
  backtracking. \<^verbatim>\<open>findall\<close> scans from the left: where the pattern matches it records
  the group and resumes behind the match, elsewhere it moves on by one character.
\<close>

definition isdecimal :: "char \<Rightarrow> bool" where
  "isdecimal c \<longleftrightarrow> 48 \<le> (of_char c :: nat) \<and> (of_char c :: nat) \<le> 57"

definition match_story :: "string \<Rightarrow> (string \<times> string) option" where
  "match_story s =
     (if take 17 s = ''Processing story '' \<and> takeWhile isdecimal (drop 17 s) \<noteq> []
      then Some (takeWhile isdecimal (drop 17 s), dropWhile isdecimal (drop 17 s))
      else None)"

function findall_story :: "string \<Rightarrow> string list" where
  "findall_story [] = []"
| "findall_story (c # cs) =
     (case match_story (c # cs) of
        Some (g, r) \<Rightarrow> g # findall_story r
      | None \<Rightarrow> findall_story cs)"
  by pat_completeness auto
termination
proof (relation "measure length", goal_cases)
  case 1
  show ?case by simp
next
  case (2 c cs)
  show ?case by simp
next
  case (3 c cs m g r)
  then have t: "take 17 (c # cs) = ''Processing story ''"
    and r: "r = dropWhile isdecimal (drop 17 (c # cs))"
    by (auto simp: match_story_def split: if_splits)
  from t have "length (take 17 (c # cs)) = 17"
    by simp
  then have "17 \<le> length (c # cs)"
    by simp
  moreover have "length r \<le> length (drop 17 (c # cs))"
    unfolding r by (rule length_dropWhile_le)
  ultimately show ?case
    by simp
qed

text \<open>
  The count in the words of the specification: the number of "processed item" markers
  in the captured text. A marker is the text \<^verbatim>\<open>Processing story\<close>, a space and a
  decimal digit; the count is the number of places in the text where one begins.
\<close>

definition marker_here :: "string \<Rightarrow> bool" where
  "marker_here s \<longleftrightarrow>
     17 < length s \<and> take 17 s = ''Processing story '' \<and> isdecimal (s ! 17)"

definition marker_count :: "string \<Rightarrow> nat" where
  "marker_count s = length (filter (\<lambda>i. marker_here (drop i s)) [0..<length s])"

subsection \<open>Exceptions\<close>

text \<open>
  An exception is its class and the text \<^verbatim>\<open>str(e)\<close> gives. All classes here derive
  from \<^verbatim>\<open>Exception\<close>, the class every handler of the module catches.
\<close>

datatype exc_class =
  ImportError | RuntimeError | AttributeError | ValueError | UnboundLocalError | DatabaseError
  | OtherException

datatype exn = Exn (exc_class: exc_class) (exc_str: string)

text \<open>The text of an attribute access on \<^verbatim>\<open>None\<close>.\<close>

definition none_has_no :: "string \<Rightarrow> exn" where
  "none_has_no attr =
     Exn AttributeError
       ([CHR 0x27] @ ''NoneType'' @ [CHR 0x27] @ '' object has no attribute ''
          @ [CHR 0x27] @ attr @ [CHR 0x27])"

subsection \<open>The run table of \<^verbatim>\<open>backend/database.py\<close>\<close>

text \<open>
  The table \<^verbatim>\<open>scraper_runs\<close> is a list of rows. The table's declaration is not among the
  sources: the key is taken from a counter, and a column the \<^verbatim>\<open>INSERT\<close> does not name
  is left empty. \<^verbatim>\<open>now()\<close> reads a clock that ticks with every statement. A statement
  can fail (connection, server); \<open>faults\<close> lists what the coming statements do, \<open>None\<close>
  for success, and past its end every statement succeeds.
\<close>

record config =
  limit :: int
  story_types :: "string list"
  force_ipv4 :: bool

record scraper_run =
  run_id :: int
  started_at :: nat
  completed_at :: "nat option"
  status :: string
  trigger_type :: string
  triggered_by :: "string option"
  stories_processed :: "int option"
  errors_count :: "int option"
  run_config :: config
  logs :: "string option"
  error_message :: "string option"

record database =
  scraper_runs :: "scraper_run list"
  next_id :: int
  clock :: nat
  faults :: "exn option list"

definition next_fault :: "database \<Rightarrow> exn option \<times> database" where
  "next_fault d = (case faults d of [] \<Rightarrow> (None, d) | f # fs \<Rightarrow> (f, d\<lparr>faults := fs\<rparr>))"

definition create_scraper_run ::
  "string \<Rightarrow> string option \<Rightarrow> config \<Rightarrow> database \<Rightarrow> (exn + int) \<times> database" where
  "create_scraper_run ttype by cfg d =
     (case next_fault d of
        (Some e, d') \<Rightarrow> (Inl e, d')
      | (None, d') \<Rightarrow>
          (Inr (next_id d'),
           d'\<lparr>scraper_runs := scraper_runs d' @
                 [\<lparr>run_id = next_id d', started_at = clock d', completed_at = None,
                   status = ''running'', trigger_type = ttype, triggered_by = by,
                   stories_processed = None, errors_count = None, run_config = cfg,
                   logs = None, error_message = None\<rparr>],
               next_id := next_id d' + 1, clock := clock d' + 1\<rparr>))"

definition update_scraper_run ::
  "int \<Rightarrow> string \<Rightarrow> int \<Rightarrow> int \<Rightarrow> string option \<Rightarrow> string option \<Rightarrow> database
     \<Rightarrow> exn option \<times> database" where
  "update_scraper_run rid st processed errs lg msg d =
     (case next_fault d of
        (Some e, d') \<Rightarrow> (Some e, d')
      | (None, d') \<Rightarrow>
          (None,
           d'\<lparr>scraper_runs :=
                 map (\<lambda>r. if run_id r = rid
                          then r\<lparr>status := st, completed_at := Some (clock d'),
                                 stories_processed := Some processed,
                                 errors_count := Some errs, logs := lg,
                                 error_message := msg\<rparr>
                          else r)
                   (scraper_runs d'),
               clock := clock d' + 1\<rparr>))"

text \<open>\<^verbatim>\<open>get_scraper_run\<close>: the row of a key, if there is one.\<close>

definition get_scraper_run :: "int \<Rightarrow> database \<Rightarrow> scraper_run option" where
  "get_scraper_run rid d = find (\<lambda>r. run_id r = rid) (scraper_runs d)"

subsection \<open>The manager and what surrounds it\<close>

text \<open>
  A thread object is its identity and the arguments of its target \<^verbatim>\<open>_run_scraper\<close>. A
  subscriber is a callable, known by its identity. A status message is a dictionary,
  kept as the list of its items.
\<close>

record thread =
  tid :: nat
  t_run_id :: int
  t_limit :: int
  t_story_types :: "string list"

datatype pyval = PyStr string | PyInt int | PyNone

type_synonym message = "(string \<times> pyval) list"

record manager =
  db_url :: string
  current_run_id :: "int option"
  current_thread :: "thread option"
  log_capture :: "LogCapture option"
  cancel_flag :: bool
  subscribers :: "nat list"

definition ScraperManager_init :: "string \<Rightarrow> manager" where
  "ScraperManager_init url =
     \<lparr>db_url = url, current_run_id = None, current_thread = None, log_capture = None,
      cancel_flag = False, subscribers = []\<rparr>"

text \<open>
  What a subscriber does when called with a message: the calls it makes back into the
  manager's subscriber list, then whether it raises. A callable can keep a state of its
  own, so what it does is given for each message and each record of the calls made
  before.
\<close>

datatype cb_call = CallSubscribe nat | CallUnsubscribe nat

record cb_run =
  calls :: "cb_call list"
  raises :: "exn option"

text \<open>
  The world a method runs in: the manager, the database, the threads that are alive and
  the next fresh thread identity, the process environment, the code of every callable,
  and the record of the calls subscribers have received, in order.
\<close>

record world =
  mgr :: manager
  db :: database
  alive :: "nat set"
  next_tid :: nat
  environ :: "string \<Rightarrow> string option"
  callbacks :: "nat \<Rightarrow> message \<Rightarrow> (nat \<times> message) list \<Rightarrow> cb_run"
  delivered :: "(nat \<times> message) list"

definition is_running :: "world \<Rightarrow> bool" where
  "is_running w =
     (case current_thread (mgr w) of None \<Rightarrow> False | Some t \<Rightarrow> tid t \<in> alive w)"

definition get_current_run_id :: "world \<Rightarrow> int option" where
  "get_current_run_id w = current_run_id (mgr w)"

definition subscribe :: "nat \<Rightarrow> world \<Rightarrow> world" where
  "subscribe callback w = w\<lparr>mgr := (mgr w)\<lparr>subscribers := subscribers (mgr w) @ [callback]\<rparr>\<rparr>"

definition unsubscribe :: "nat \<Rightarrow> world \<Rightarrow> world" where
  "unsubscribe callback w =
     (if callback \<in> set (subscribers (mgr w))
      then w\<lparr>mgr := (mgr w)\<lparr>subscribers := remove1 callback (subscribers (mgr w))\<rparr>\<rparr>
      else w)"

subsection \<open>Notification\<close>

fun do_call :: "world \<Rightarrow> cb_call \<Rightarrow> world" where
  "do_call w (CallSubscribe k) = subscribe k w"
| "do_call w (CallUnsubscribe k) = unsubscribe k w"

text \<open>\<^verbatim>\<open>callback(message)\<close>: the call is received, acts, and returns or raises.\<close>

definition call_callback :: "nat \<Rightarrow> message \<Rightarrow> world \<Rightarrow> exn option \<times> world" where
  "call_callback callback message w =
     (raises (callbacks w callback message (delivered w)),
      foldl do_call (w\<lparr>delivered := delivered w @ [(callback, message)]\<rparr>)
        (calls (callbacks w callback message (delivered w))))"

text \<open>
  The loop of \<^verbatim>\<open>_notify_subscribers\<close> over the copied list: an exception of a callback
  is logged and the loop goes on.
\<close>

fun notify_each :: "nat list \<Rightarrow> message \<Rightarrow> world \<Rightarrow> world" where
  "notify_each [] message w = w"
| "notify_each (callback # rest) message w =
     notify_each rest message (snd (call_callback callback message w))"

definition notify_subscribers :: "message \<Rightarrow> world \<Rightarrow> world" where
  "notify_subscribers message w = notify_each (subscribers (mgr w)) message w"

subsection \<open>Triggering a run\<close>

definition default_story_types :: "string list" where
  "default_story_types =
     [''topstories'', ''newstories'', ''showstories'', ''askstories'', ''jobstories'']"

definition already_running :: exn where
  "already_running = Exn RuntimeError ''Scraper is already running''"

text \<open>\<^verbatim>\<open>os.environ.get(key, default)\<close>.\<close>

definition environ_get :: "world \<Rightarrow> string \<Rightarrow> string \<Rightarrow> string" where
  "environ_get w key dflt = (case environ w key of None \<Rightarrow> dflt | Some v \<Rightarrow> v)"

definition make_config :: "int \<Rightarrow> string list option \<Rightarrow> world \<Rightarrow> config" where
  "make_config lim types w =
     \<lparr>limit = lim,
      story_types = (case types of None \<Rightarrow> default_story_types | Some ts \<Rightarrow> ts),
      force_ipv4 = (environ_get w ''SUPABASE_FORCE_IPV4'' ''1'' = ''1'')\<rparr>"

text \<open>
  The block under the lock in \<^verbatim>\<open>trigger_scrape\<close>: the run is recorded as current, the
  flag reset, a fresh buffer bound, the thread created and started.
\<close>

definition launch :: "int \<Rightarrow> int \<Rightarrow> string list \<Rightarrow> world \<Rightarrow> world" where
  "launch rid lim types w =
     w\<lparr>mgr := (mgr w)\<lparr>current_run_id := Some rid, cancel_flag := False,
                       log_capture := Some LogCapture_init,
                       current_thread :=
                         Some \<lparr>tid = next_tid w, t_run_id = rid, t_limit = lim,
                               t_story_types = types\<rparr>\<rparr>,
       alive := insert (next_tid w) (alive w),
       next_tid := Suc (next_tid w)\<rparr>"

definition status_message :: "pyval \<Rightarrow> string \<Rightarrow> message \<Rightarrow> message" where
  "status_message rid st extra =
     [(''type'', PyStr ''status''), (''run_id'', rid), (''status'', PyStr st)] @ extra"

text \<open>
  \<^verbatim>\<open>trigger_scrape\<close>, called with nothing else running in between: the result is the
  exception raised or the run id returned.
\<close>

definition trigger_scrape ::
  "int \<Rightarrow> string list option \<Rightarrow> string \<Rightarrow> world \<Rightarrow> (exn + int) \<times> world" where
  "trigger_scrape lim types username w =
     (if is_running w then (Inl already_running, w)
      else
        let cfg = make_config lim types w in
        (case create_scraper_run ''manual'' (Some username) cfg (db w) of
           (Inl e, d) \<Rightarrow> (Inl e, w\<lparr>db := d\<rparr>)
         | (Inr rid, d) \<Rightarrow>
             (Inr rid,
              notify_subscribers (status_message (PyInt rid) ''running'' [])
                (launch rid lim (story_types cfg) (w\<lparr>db := d\<rparr>)))))"

subsection \<open>The worker\<close>

text \<open>
  The scrape engine is outside the sources. A run of it is what the worker can see of
  it: either the import of \<^verbatim>\<open>scrape_hn\<close> raises, or \<^verbatim>\<open>scrape_main\<close> runs, writes
  texts to the redirected streams and the log handler, and returns or raises.
\<close>

datatype engine = ImportRaises exn | Runs "string list" "exn option"

definition engine_error_msg :: "exn \<Rightarrow> string" where
  "engine_error_msg e =
     (if exc_class e = ImportError
      then ''ERROR: Could not import scrape_hn module: '' @ exc_str e
      else ''ERROR: Scraper failed: '' @ exc_str e)"

text \<open>
  The inner \<^verbatim>\<open>try\<close> statement with its two handlers. It yields the exception that
  leaves it (a handler writing to a buffer that is \<^verbatim>\<open>None\<close>), the buffer as the engine
  and the handler left it, and the count \<^verbatim>\<open>errors\<close>. Output redirected to \<^verbatim>\<open>None\<close>
  is dropped.
\<close>

definition run_engine :: "engine \<Rightarrow> LogCapture option \<Rightarrow> exn option \<times> LogCapture option \<times> int" where
  "run_engine eng lco =
     (case eng of
        ImportRaises e \<Rightarrow>
          (case lco of
             None \<Rightarrow> (Some (none_has_no ''write''), None, 0)
           | Some lc \<Rightarrow> (None, Some (write_lc lc (engine_error_msg e)), 1))
      | Runs out None \<Rightarrow> (None, map_option (\<lambda>lc. writes lc out) lco, 0)
      | Runs out (Some e) \<Rightarrow>
          (case lco of
             None \<Rightarrow> (Some (none_has_no ''write''), None, 0)
           | Some lc \<Rightarrow> (None, Some (write_lc (writes lc out) (engine_error_msg e)), 1)))"

text \<open>
  The body of the outer \<^verbatim>\<open>try\<close> from the binding of \<^verbatim>\<open>log_capture\<close> on. The buffer
  is one object, shared by the manager's field and the worker's variable, so the field
  sees what was written. The result carries the exception that leaves the body, if any,
  and the worker's variable \<^verbatim>\<open>log_capture\<close>.
\<close>

definition try_body :: "engine \<Rightarrow> int \<Rightarrow> world \<Rightarrow> exn option \<times> LogCapture option \<times> world" where
  "try_body eng rid w =
     (case run_engine eng (log_capture (mgr w)) of
        (Some e, lco, errors) \<Rightarrow> (Some e, lco, w\<lparr>mgr := (mgr w)\<lparr>log_capture := lco\<rparr>\<rparr>)
      | (None, None, errors) \<Rightarrow> (Some (none_has_no ''get_logs''), None, w)
      | (None, Some lc, errors) \<Rightarrow>
          (let w1 = w\<lparr>mgr := (mgr w)\<lparr>log_capture := Some lc\<rparr>\<rparr>;
               lg = get_logs lc;
               n = int (length (findall_story lg))
           in case update_scraper_run rid ''completed'' n errors (Some lg) None (db w1) of
                (Some e, d) \<Rightarrow> (Some e, Some lc, w1\<lparr>db := d\<rparr>)
              | (None, d) \<Rightarrow>
                  (None, Some lc,
                   notify_subscribers
                     (status_message (PyInt rid) ''completed''
                        [(''stories_processed'', PyInt n), (''errors_count'', PyInt errors)])
                     (w1\<lparr>db := d\<rparr>))))"

text \<open>
  The outer handler. The call of \<^verbatim>\<open>update_scraper_run\<close> leaves the two counts at
  their defaults, 0. An exception of that call leaves the handler.
\<close>

definition handle_failure :: "exn \<Rightarrow> LogCapture option \<Rightarrow> int \<Rightarrow> world \<Rightarrow> exn option \<times> world" where
  "handle_failure e lco rid w =
     (let lg = (case lco of Some lc \<Rightarrow> get_logs lc | None \<Rightarrow> exc_str e)
      in case update_scraper_run rid ''failed'' 0 0 (Some lg) (Some (exc_str e)) (db w) of
           (Some e', d) \<Rightarrow> (Some e', w\<lparr>db := d\<rparr>)
         | (None, d) \<Rightarrow>
             (None,
              notify_subscribers
                (status_message (PyInt rid) ''failed'' [(''error_message'', PyStr (exc_str e))])
                (w\<lparr>db := d\<rparr>)))"

text \<open>The \<^verbatim>\<open>finally\<close> block.\<close>

definition cleanup :: "world \<Rightarrow> world" where
  "cleanup w =
     w\<lparr>mgr := (mgr w)\<lparr>current_run_id := None, current_thread := None, log_capture := None\<rparr>\<rparr>"

definition unbound_log_capture :: exn where
  "unbound_log_capture =
     Exn UnboundLocalError
       (''cannot access local variable '' @ [CHR 0x27] @ ''log_capture'' @ [CHR 0x27]
          @ '' where it is not associated with a value'')"

text \<open>
  \<^verbatim>\<open>_run_scraper\<close>. The result is the exception that leaves the method, if any.
  Storing a text with a null character in \<^verbatim>\<open>os.environ\<close> raises \<^verbatim>\<open>ValueError\<close>; this
  happens before \<^verbatim>\<open>log_capture\<close> is bound, so the outer handler then raises in turn
  when it reads that variable.
\<close>

definition run_scraper :: "engine \<Rightarrow> int \<Rightarrow> int \<Rightarrow> string list \<Rightarrow> world \<Rightarrow> exn option \<times> world" where
  "run_scraper eng rid lim types w =
     (let w0 = w\<lparr>environ := (environ w)(''HN_LIMIT'' \<mapsto> str_int lim)\<rparr> in
      if CHR 0x00 \<in> set (db_url (mgr w0)) then (Some unbound_log_capture, cleanup w0)
      else
        let w1 = w0\<lparr>environ := (environ w0)(''SUPABASE_DB_URL'' \<mapsto> db_url (mgr w0))\<rparr> in
        (case try_body eng rid w1 of
           (None, lco, w2) \<Rightarrow> (None, cleanup w2)
         | (Some e, lco, w2) \<Rightarrow>
             (case handle_failure e lco rid w2 of (r, w3) \<Rightarrow> (r, cleanup w3))))"

text \<open>A thread runs its target and is no longer alive when the target is left.\<close>

definition thread_run :: "engine \<Rightarrow> thread \<Rightarrow> world \<Rightarrow> exn option \<times> world" where
  "thread_run eng t w =
     (case run_scraper eng (t_run_id t) (t_limit t) (t_story_types t) w of
        (r, w') \<Rightarrow> (r, w'\<lparr>alive := alive w' - {tid t}\<rparr>))"

subsection \<open>Cancelling and waiting\<close>

definition cancel_scrape :: "world \<Rightarrow> bool \<times> world" where
  "cancel_scrape w =
     (if \<not> is_running w then (False, w)
      else
        let w1 = w\<lparr>mgr := (mgr w)\<lparr>cancel_flag := True\<rparr>\<rparr>;
            rid = (case get_current_run_id w1 of None \<Rightarrow> PyNone | Some i \<Rightarrow> PyInt i)
        in (True, notify_subscribers (status_message rid ''cancelled'' []) w1))"


text \<open>
  \<^verbatim>\<open>Thread.join(timeout)\<close> blocks the caller until the thread is done or the time is
  up. What happens meanwhile is given by \<open>progress\<close>: \<open>Some eng\<close> when the worker runs
  to its end within the time, with that engine run, \<open>None\<close> when the time is up first.
  A thread that is not alive is joined at once.
\<close>

definition join_thread :: "thread \<Rightarrow> engine option \<Rightarrow> world \<Rightarrow> world" where
  "join_thread t progress w =
     (if tid t \<in> alive w
      then (case progress of None \<Rightarrow> w | Some eng \<Rightarrow> snd (thread_run eng t w))
      else w)"

text \<open>
  \<^verbatim>\<open>wait_for_completion\<close> reads the field \<^verbatim>\<open>current_thread\<close> three times, without
  the lock; the last read is after the join.
\<close>

definition wait_for_completion ::
  "'t option \<Rightarrow> engine option \<Rightarrow> world \<Rightarrow> (exn + bool) \<times> world" where
  "wait_for_completion timeout progress w =
     (case current_thread (mgr w) of
        None \<Rightarrow> (Inr True, w)
      | Some t \<Rightarrow>
          (let w' = join_thread t progress w
           in case current_thread (mgr w') of
                None \<Rightarrow> (Inl (none_has_no ''is_alive''), w')
              | Some t' \<Rightarrow> (Inr (tid t' \<notin> alive w'), w')))"

subsection \<open>Concurrent callers of \<^verbatim>\<open>trigger_scrape\<close>\<close>

text \<open>
  Between two callers, a call of \<^verbatim>\<open>trigger_scrape\<close> is not one step. The lock is taken
  and released by \<^verbatim>\<open>is_running\<close>, then the run record is created with the lock free,
  then the lock is taken again for the launch, and the subscribers are notified with the
  lock free. A caller is at one of these points, or has left with its result.
\<close>

datatype trigger_pc =
  AtCheck | AtCreate | AtLaunch int config | AtNotify int | Left "exn + int"

record trigger_args =
  arg_limit :: int
  arg_story_types :: "string list option"
  arg_username :: string

fun trigger_step :: "trigger_args \<Rightarrow> trigger_pc \<Rightarrow> world \<Rightarrow> trigger_pc \<times> world" where
  "trigger_step a AtCheck w =
     (if is_running w then (Left (Inl already_running), w) else (AtCreate, w))"
| "trigger_step a AtCreate w =
     (let cfg = make_config (arg_limit a) (arg_story_types a) w in
      case create_scraper_run ''manual'' (Some (arg_username a)) cfg (db w) of
        (Inl e, d) \<Rightarrow> (Left (Inl e), w\<lparr>db := d\<rparr>)
      | (Inr rid, d) \<Rightarrow> (AtLaunch rid cfg, w\<lparr>db := d\<rparr>))"
| "trigger_step a (AtLaunch rid cfg) w =
     (AtNotify rid, launch rid (arg_limit a) (story_types cfg) w)"
| "trigger_step a (AtNotify rid) w =
     (Left (Inr rid), notify_subscribers (status_message (PyInt rid) ''running'' []) w)"
| "trigger_step a (Left r) w = (Left r, w)"

text \<open>
  A schedule names, step by step, the caller that moves. All callers pass the same
  arguments.
\<close>

fun interleave ::
  "trigger_args \<Rightarrow> nat list \<Rightarrow> trigger_pc list \<Rightarrow> world \<Rightarrow> trigger_pc list \<times> world" where
  "interleave a [] pcs w = (pcs, w)"
| "interleave a (i # schedule) pcs w =
     (if i < length pcs
      then (case trigger_step a (pcs ! i) w of
              (pc', w') \<Rightarrow> interleave a schedule (pcs[i := pc']) w')
      else interleave a schedule pcs w)"

text \<open>The rows of the run table that are in status \<^verbatim>\<open>running\<close>.\<close>

definition running_rows :: "world \<Rightarrow> scraper_run list" where
  "running_rows w = filter (\<lambda>r. status r = ''running'') (scraper_runs (db w))"

subsection \<open>All the calls of a run, step by step\<close>

text \<open>
  \<^verbatim>\<open>_notify_subscribers\<close> is not one step either: it copies the subscriber list under
  the lock, then calls the callbacks of the copy one after the other with the lock
  free, and returns when the copy is used up. A notification under way is about to
  take the copy, or holds the message and the callbacks still to call.
\<close>

datatype publish = Snapshot message | Calling message "nat list"

fun publish_step :: "publish \<Rightarrow> world \<Rightarrow> publish option \<times> world" where
  "publish_step (Snapshot message) w = (Some (Calling message (subscribers (mgr w))), w)"
| "publish_step (Calling message (callback # rest)) w =
     (Some (Calling message rest), snd (call_callback callback message w))"
| "publish_step (Calling message []) w = (None, w)"

text \<open>
  A caller of \<^verbatim>\<open>trigger_scrape\<close>, as above but with the notification in its steps.
\<close>

datatype trigger_at =
  TCheck | TCreate | TLaunch int config | TPublish int publish | TLeft "exn + int"

fun trigger_at_step :: "trigger_args \<Rightarrow> trigger_at \<Rightarrow> world \<Rightarrow> trigger_at \<times> world" where
  "trigger_at_step a TCheck w =
     (if is_running w then (TLeft (Inl already_running), w) else (TCreate, w))"
| "trigger_at_step a TCreate w =
     (let cfg = make_config (arg_limit a) (arg_story_types a) w in
      case create_scraper_run ''manual'' (Some (arg_username a)) cfg (db w) of
        (Inl e, d) \<Rightarrow> (TLeft (Inl e), w\<lparr>db := d\<rparr>)
      | (Inr rid, d) \<Rightarrow> (TLaunch rid cfg, w\<lparr>db := d\<rparr>))"
| "trigger_at_step a (TLaunch rid cfg) w =
     (TPublish rid (Snapshot (status_message (PyInt rid) ''running'' [])),
      launch rid (arg_limit a) (story_types cfg) w)"
| "trigger_at_step a (TPublish rid p) w =
     (case publish_step p w of
        (Some p', w') \<Rightarrow> (TPublish rid p', w')
      | (None, w') \<Rightarrow> (TLeft (Inr rid), w'))"
| "trigger_at_step a (TLeft r) w = (TLeft r, w)"

text \<open>
  A caller of \<^verbatim>\<open>cancel_scrape\<close>: the check \<^verbatim>\<open>is_running\<close>, the flag set under the
  lock, the run id read by \<^verbatim>\<open>get_current_run_id\<close>, the notification, and the return.
  A caller that has left was refused (\<^verbatim>\<open>False\<close>) or accepted (\<^verbatim>\<open>True\<close>); the id it
  published is kept with the latter.
\<close>

datatype cancel_at =
  CCheck | CSetFlag | CReadId | CPublish pyval publish | Refused | Accepted pyval

fun cancel_at_step :: "cancel_at \<Rightarrow> world \<Rightarrow> cancel_at \<times> world" where
  "cancel_at_step CCheck w = (if \<not> is_running w then (Refused, w) else (CSetFlag, w))"
| "cancel_at_step CSetFlag w = (CReadId, w\<lparr>mgr := (mgr w)\<lparr>cancel_flag := True\<rparr>\<rparr>)"
| "cancel_at_step CReadId w =
     (let rid = (case get_current_run_id w of None \<Rightarrow> PyNone | Some i \<Rightarrow> PyInt i)
      in (CPublish rid (Snapshot (status_message rid ''cancelled'' [])), w))"
| "cancel_at_step (CPublish rid p) w =
     (case publish_step p w of
        (Some p', w') \<Rightarrow> (CPublish rid p', w')
      | (None, w') \<Rightarrow> (Accepted rid, w'))"
| "cancel_at_step Refused w = (Refused, w)"
| "cancel_at_step (Accepted rid) w = (Accepted rid, w)"

text \<open>
  The worker thread: the start of \<^verbatim>\<open>_run_scraper\<close> up to the end of the inner
  \<^verbatim>\<open>try\<close> statement (the environment, the engine, its output); the update of the run
  record in the body; the outer handler with its update; the notification; the
  \<^verbatim>\<open>finally\<close> block; the end of the thread.
\<close>

datatype worker_at =
  WStart | WUpdate LogCapture int | WHandler exn "LogCapture option" | WPublish publish
  | WFinally "exn option" | WExit "exn option" | WDone "exn option"

fun worker_at_step :: "engine \<Rightarrow> thread \<Rightarrow> worker_at \<Rightarrow> world \<Rightarrow> worker_at \<times> world" where
  "worker_at_step eng t WStart w =
     (let w0 = w\<lparr>environ := (environ w)(''HN_LIMIT'' \<mapsto> str_int (t_limit t))\<rparr> in
      if CHR 0x00 \<in> set (db_url (mgr w0)) then (WFinally (Some unbound_log_capture), w0)
      else
        let w1 = w0\<lparr>environ := (environ w0)(''SUPABASE_DB_URL'' \<mapsto> db_url (mgr w0))\<rparr> in
        (case run_engine eng (log_capture (mgr w1)) of
           (Some e, lco, errors) \<Rightarrow> (WHandler e lco, w1\<lparr>mgr := (mgr w1)\<lparr>log_capture := lco\<rparr>\<rparr>)
         | (None, None, errors) \<Rightarrow> (WHandler (none_has_no ''get_logs'') None, w1)
         | (None, Some lc, errors) \<Rightarrow>
             (WUpdate lc errors, w1\<lparr>mgr := (mgr w1)\<lparr>log_capture := Some lc\<rparr>\<rparr>)))"
| "worker_at_step eng t (WUpdate lc errors) w =
     (let lg = get_logs lc; n = int (length (findall_story lg))
      in case update_scraper_run (t_run_id t) ''completed'' n errors (Some lg) None (db w) of
           (Some e, d) \<Rightarrow> (WHandler e (Some lc), w\<lparr>db := d\<rparr>)
         | (None, d) \<Rightarrow>
             (WPublish (Snapshot (status_message (PyInt (t_run_id t)) ''completed''
                [(''stories_processed'', PyInt n), (''errors_count'', PyInt errors)])),
              w\<lparr>db := d\<rparr>))"
| "worker_at_step eng t (WHandler e lco) w =
     (let lg = (case lco of Some lc \<Rightarrow> get_logs lc | None \<Rightarrow> exc_str e)
      in case update_scraper_run (t_run_id t) ''failed'' 0 0 (Some lg) (Some (exc_str e)) (db w) of
           (Some e', d) \<Rightarrow> (WFinally (Some e'), w\<lparr>db := d\<rparr>)
         | (None, d) \<Rightarrow>
             (WPublish (Snapshot (status_message (PyInt (t_run_id t)) ''failed''
                [(''error_message'', PyStr (exc_str e))])),
              w\<lparr>db := d\<rparr>))"
| "worker_at_step eng t (WPublish p) w =
     (case publish_step p w of
        (Some p', w') \<Rightarrow> (WPublish p', w')
      | (None, w') \<Rightarrow> (WFinally None, w'))"
| "worker_at_step eng t (WFinally r) w = (WExit r, cleanup w)"
| "worker_at_step eng t (WExit r) w = (WDone r, w\<lparr>alive := alive w - {tid t}\<rparr>)"
| "worker_at_step eng t (WDone r) w = (WDone r, w)"

text \<open>The steps as functions on a position and a world, to be iterated.\<close>

definition trigger_move :: "trigger_args \<Rightarrow> trigger_at \<times> world \<Rightarrow> trigger_at \<times> world" where
  "trigger_move a x = trigger_at_step a (fst x) (snd x)"

definition cancel_move :: "cancel_at \<times> world \<Rightarrow> cancel_at \<times> world" where
  "cancel_move x = cancel_at_step (fst x) (snd x)"

definition worker_move :: "engine \<Rightarrow> thread \<Rightarrow> worker_at \<times> world \<Rightarrow> worker_at \<times> world" where
  "worker_move eng t x = worker_at_step eng t (fst x) (snd x)"
















subsection \<open>What holds along every schedule\<close>





















subsection \<open>Scenarios\<close>

text \<open>
  A manager that has just been built, with two subscribers, 7 and 8, that only take
  their messages; a database with an empty run table that does not fail.
\<close>

definition quiet :: "nat \<Rightarrow> message \<Rightarrow> (nat \<times> message) list \<Rightarrow> cb_run" where
  "quiet callback message history = \<lparr>calls = [], raises = None\<rparr>"

definition idle_world :: world where
  "idle_world =
     \<lparr>mgr = (ScraperManager_init ''postgres://db'')\<lparr>subscribers := [7, 8]\<rparr>,
      db = \<lparr>scraper_runs = [], next_id = 1, clock = 0, faults = []\<rparr>,
      alive = {}, next_tid = 0, environ = Map.empty, callbacks = quiet, delivered = []\<rparr>"

text \<open>
  The same with a subscriber 7 that, on every message, removes subscriber 8 from the
  list and then raises.
\<close>

definition rowdy :: "nat \<Rightarrow> message \<Rightarrow> (nat \<times> message) list \<Rightarrow> cb_run" where
  "rowdy callback message history =
     (if callback = 7
      then \<lparr>calls = [CallUnsubscribe 8], raises = Some (Exn OtherException ''listener broke'')\<rparr>
      else \<lparr>calls = [], raises = None\<rparr>)"

definition rowdy_world :: world where
  "rowdy_world = idle_world\<lparr>callbacks := rowdy\<rparr>"

text \<open>
  The scenario of the specification: \<^verbatim>\<open>trigger(limit=50, selectors=["topstories"],
  actor="admin")\<close> on the idle manager, and the thread it starts.
\<close>

definition running_world :: world where
  "running_world = snd (trigger_scrape 50 (Some [''topstories'']) ''admin'' idle_world)"

definition first_thread :: thread where
  "first_thread = \<lparr>tid = 0, t_run_id = 1, t_limit = 50, t_story_types = [''topstories'']\<rparr>"

definition scenario_args :: trigger_args where
  "scenario_args =
     \<lparr>arg_limit = 50, arg_story_types = Some [''topstories''], arg_username = ''admin''\<rparr>"

text \<open>
  The run of the scenario after a cancellation request, with a database that fails the
  next two statements, and an engine that writes one line and raises.
\<close>

definition failing_db_world :: world where
  "failing_db_world =
     running_world
       \<lparr>mgr := (mgr running_world)\<lparr>cancel_flag := True\<rparr>,
        db := (db running_world)
                \<lparr>faults := [Some (Exn DatabaseError ''gone''), Some (Exn DatabaseError ''gone'')]\<rparr>\<rparr>"

definition timeout_engine :: engine where
  "timeout_engine = Runs [''Processing story 1''] (Some (Exn OtherException ''network timeout''))"

text \<open>
  An engine output with three markers, and the run of the scenario with a database that
  fails the next statement.
\<close>

definition three_markers :: "string list" where
  "three_markers =
     [''Processing story 101'', newline, ''Processing story 102'', newline,
      ''Processing story 103'', newline]"

definition flaky_db_world :: world where
  "flaky_db_world =
     running_world\<lparr>db := (db running_world)\<lparr>faults := [Some (Exn DatabaseError ''gone'')]\<rparr>\<rparr>"





text \<open>
  Two worlds that differ at most in the subscriber list and in the record of the calls
  the subscribers have received.
\<close>

definition same_run_state :: "world \<Rightarrow> world \<Rightarrow> bool" where
  "same_run_state w w' \<longleftrightarrow>
     db w' = db w \<and> alive w' = alive w \<and> next_tid w' = next_tid w \<and> environ w' = environ w
     \<and> callbacks w' = callbacks w
     \<and> (mgr w')\<lparr>subscribers := []\<rparr> = (mgr w)\<lparr>subscribers := []\<rparr>"

subsection \<open>Facts about the string functions and the buffer\<close>

lemma strip_Nil_iff_blank: "strip s = [] \<longleftrightarrow> blank s"
proof
  assume "strip s = []"
  then have a: "\<forall>c \<in> set (dropWhile isspace (rev s)). isspace c"
    by (simp add: strip_def)
  have "set (rev s) = set (takeWhile isspace (rev s)) \<union> set (dropWhile isspace (rev s))"
    by (metis set_append takeWhile_dropWhile_id)
  then have "\<forall>c \<in> set (rev s). isspace c"
    using a by (auto dest: set_takeWhileD)
  then show "blank s"
    by (simp add: blank_def list_all_iff)
next
  assume "blank s"
  then show "strip s = []"
    by (auto simp: blank_def list_all_iff strip_def dest: set_dropWhileD)
qed



subsection \<open>The matches found are the markers of the text\<close>

lemma marker_count_Nil: "marker_count [] = 0"
  by (simp add: marker_count_def)

lemma marker_count_Cons:
  "marker_count (c # cs) = (if marker_here (c # cs) then 1 else 0) + marker_count cs"
proof -
  have "[0..<length (c # cs)] = 0 # map Suc [0..<length cs]"
    by (simp add: upt_conv_Cons map_Suc_upt del: upt_Suc)
  then show ?thesis
    by (simp add: marker_count_def filter_map comp_def)
qed

lemma marker_here_P: "marker_here (c # cs) \<Longrightarrow> c = CHR ''P''"
proof -
  assume "marker_here (c # cs)"
  then have "take 17 (c # cs) = ''Processing story ''"
    by (simp add: marker_here_def)
  then have "hd (take 17 (c # cs)) = CHR ''P''"
    by simp
  then show ?thesis by simp
qed

lemma marker_count_skip:
  "CHR ''P'' \<notin> set xs \<Longrightarrow> marker_count (xs @ r) = marker_count r"
proof (induction xs)
  case Nil
  show ?case by simp
next
  case (Cons x xs)
  then have "\<not> marker_here (x # xs @ r)"
    using marker_here_P by fastforce
  with Cons show ?case
    by (simp add: marker_count_Cons)
qed

lemma isdecimal_not_P: "isdecimal c \<Longrightarrow> c \<noteq> CHR ''P''"
  by (auto simp: isdecimal_def)

lemma match_story_iff_marker: "match_story s \<noteq> None \<longleftrightarrow> marker_here s"
proof -
  have "takeWhile isdecimal (drop 17 s) \<noteq> [] \<longleftrightarrow> 17 < length s \<and> isdecimal (s ! 17)"
  proof (cases "drop 17 s")
    case Nil
    then show ?thesis by simp
  next
    case (Cons d ds)
    then have l: "17 < length s"
      by (cases "17 < length s") simp_all
    then have "s ! 17 = d"
      using hd_drop_conv_nth [of 17 s] Cons by simp
    with Cons l show ?thesis by simp
  qed
  then show ?thesis
    by (auto simp: match_story_def marker_here_def)
qed

lemma match_story_split:
  assumes "match_story s = Some (g, r)"
  shows "s = ''Processing story '' @ g @ r" and "CHR ''P'' \<notin> set g"
proof -
  from assms have t: "take 17 s = ''Processing story ''"
    and g: "g = takeWhile isdecimal (drop 17 s)" and r: "r = dropWhile isdecimal (drop 17 s)"
    by (auto simp: match_story_def split: if_splits)
  have "s = take 17 s @ drop 17 s"
    by simp
  also have "drop 17 s = g @ r"
    by (simp add: g r)
  finally show "s = ''Processing story '' @ g @ r"
    using t by simp
  show "CHR ''P'' \<notin> set g"
    unfolding g using isdecimal_not_P by (auto dest: set_takeWhileD)
qed

lemma findall_story_counts_markers: "length (findall_story s) = marker_count s"
proof (induction s rule: findall_story.induct)
  case 1
  show ?case by (simp add: marker_count_Nil)
next
  case (2 c cs)
  show ?case
  proof (cases "match_story (c # cs)")
    case None
    then have "\<not> marker_here (c # cs)"
      using match_story_iff_marker [of "c # cs"] by simp
    with None 2 show ?thesis
      by (simp add: marker_count_Cons)
  next
    case (Some m)
    obtain g r where m: "m = (g, r)"
      by (cases m)
    have here: "marker_here (c # cs)"
      using match_story_iff_marker [of "c # cs"] Some by simp
    have s: "c # cs = ''Processing story '' @ g @ r" and g: "CHR ''P'' \<notin> set g"
      using match_story_split Some m by blast+
    then have cs: "cs = ''rocessing story '' @ g @ r"
      by simp
    have "marker_count cs = marker_count ((''rocessing story '' @ g) @ r)"
      by (simp add: cs)
    also have "\<dots> = marker_count r"
      using g by (intro marker_count_skip) simp
    finally have "marker_count (c # cs) = Suc (marker_count r)"
      using here by (simp add: marker_count_Cons)
    moreover have "length (findall_story r) = marker_count r"
      using 2 Some m by simp
    ultimately show ?thesis
      using Some m by simp
  qed
qed

subsection \<open>What a notification leaves as it is, and what it delivers\<close>

lemma same_run_state_refl: "same_run_state w w"
  by (simp add: same_run_state_def)

lemma same_run_state_trans:
  "same_run_state w w' \<Longrightarrow> same_run_state w' w'' \<Longrightarrow> same_run_state w w''"
  by (simp add: same_run_state_def)

lemma same_run_state_fields:
  assumes "same_run_state w w'"
  shows "db w' = db w" "alive w' = alive w" "next_tid w' = next_tid w"
    "environ w' = environ w" "callbacks w' = callbacks w"
    "current_run_id (mgr w') = current_run_id (mgr w)"
    "current_thread (mgr w') = current_thread (mgr w)"
    "log_capture (mgr w') = log_capture (mgr w)"
    "cancel_flag (mgr w') = cancel_flag (mgr w)"
    "db_url (mgr w') = db_url (mgr w)"
proof -
  from assms have m: "(mgr w')\<lparr>subscribers := []\<rparr> = (mgr w)\<lparr>subscribers := []\<rparr>"
    by (simp add: same_run_state_def)
  from assms show "db w' = db w" "alive w' = alive w" "next_tid w' = next_tid w"
    "environ w' = environ w" "callbacks w' = callbacks w"
    by (simp_all add: same_run_state_def)
  from m have "current_run_id ((mgr w')\<lparr>subscribers := []\<rparr>) = current_run_id ((mgr w)\<lparr>subscribers := []\<rparr>)"
    by simp
  then show "current_run_id (mgr w') = current_run_id (mgr w)" by simp
  from m have "current_thread ((mgr w')\<lparr>subscribers := []\<rparr>) = current_thread ((mgr w)\<lparr>subscribers := []\<rparr>)"
    by simp
  then show "current_thread (mgr w') = current_thread (mgr w)" by simp
  from m have "log_capture ((mgr w')\<lparr>subscribers := []\<rparr>) = log_capture ((mgr w)\<lparr>subscribers := []\<rparr>)"
    by simp
  then show "log_capture (mgr w') = log_capture (mgr w)" by simp
  from m have "cancel_flag ((mgr w')\<lparr>subscribers := []\<rparr>) = cancel_flag ((mgr w)\<lparr>subscribers := []\<rparr>)"
    by simp
  then show "cancel_flag (mgr w') = cancel_flag (mgr w)" by simp
  from m have "db_url ((mgr w')\<lparr>subscribers := []\<rparr>) = db_url ((mgr w)\<lparr>subscribers := []\<rparr>)"
    by simp
  then show "db_url (mgr w') = db_url (mgr w)" by simp
qed

lemma do_call_same: "same_run_state w (do_call w c)"
  by (cases c) (simp_all add: same_run_state_def subscribe_def unsubscribe_def)

lemma foldl_do_call_same: "same_run_state w (foldl do_call w cs)"
proof (induction cs arbitrary: w)
  case Nil
  show ?case by (simp add: same_run_state_refl)
next
  case (Cons c cs)
  have "same_run_state w (do_call w c)" by (rule do_call_same)
  moreover have "same_run_state (do_call w c) (foldl do_call (do_call w c) cs)" by (rule Cons.IH)
  ultimately show ?case
    by (simp add: same_run_state_trans)
qed

lemma call_callback_same: "same_run_state w (snd (call_callback c m w))"
proof -
  have "same_run_state w (w\<lparr>delivered := delivered w @ [(c, m)]\<rparr>)"
    by (simp add: same_run_state_def)
  then show ?thesis
    unfolding call_callback_def snd_conv
    by (rule same_run_state_trans) (rule foldl_do_call_same)
qed

lemma notify_each_same: "same_run_state w (notify_each cs m w)"
proof (induction cs arbitrary: w)
  case Nil
  show ?case by (simp add: same_run_state_refl)
next
  case (Cons c cs)
  show ?case
    using call_callback_same [of w c m] Cons.IH [of "snd (call_callback c m w)"]
    by (simp add: same_run_state_trans)
qed

lemma notify_subscribers_same: "same_run_state w (notify_subscribers m w)"
  by (simp add: notify_subscribers_def notify_each_same)

lemma do_call_delivered: "delivered (do_call w c) = delivered w"
  by (cases c) (simp_all add: subscribe_def unsubscribe_def)

lemma foldl_do_call_delivered: "delivered (foldl do_call w cs) = delivered w"
  by (induction cs arbitrary: w) (simp_all add: do_call_delivered)

lemma call_callback_delivered:
  "delivered (snd (call_callback c m w)) = delivered w @ [(c, m)]"
  by (simp add: call_callback_def foldl_do_call_delivered)

lemma notify_each_delivered:
  "delivered (notify_each cs m w) = delivered w @ map (\<lambda>c. (c, m)) cs"
  by (induction cs arbitrary: w) (simp_all add: call_callback_delivered)

subsection \<open>The worker always ends in the cleanup\<close>

lemma run_scraper_cleanup: "\<exists>w'. snd (run_scraper eng rid lim types w) = cleanup w'"
  by (auto simp: run_scraper_def Let_def split: prod.splits option.splits)

lemma run_scraper_cleared:
  "current_run_id (mgr (snd (run_scraper eng rid lim types w))) = None"
  "current_thread (mgr (snd (run_scraper eng rid lim types w))) = None"
  "log_capture (mgr (snd (run_scraper eng rid lim types w))) = None"
proof -
  obtain w' where "snd (run_scraper eng rid lim types w) = cleanup w'"
    using run_scraper_cleanup by blast
  then show "current_run_id (mgr (snd (run_scraper eng rid lim types w))) = None"
  "current_thread (mgr (snd (run_scraper eng rid lim types w))) = None"
  "log_capture (mgr (snd (run_scraper eng rid lim types w))) = None"
    by (simp_all add: cleanup_def)
qed

lemma thread_run_mgr:
  "mgr (snd (thread_run eng t w)) = mgr (snd (run_scraper eng (t_run_id t) (t_limit t) (t_story_types t) w))"
  by (simp add: thread_run_def split: prod.splits)

subsection \<open>The scenario worlds\<close>

lemma running_world_eq:
  "running_world =
     notify_subscribers (status_message (PyInt 1) ''running'' [])
       (launch 1 50 [''topstories'']
          (idle_world\<lparr>db := \<lparr>scraper_runs =
             [\<lparr>run_id = 1, started_at = 0, completed_at = None,
               status = ''running'', trigger_type = ''manual'', triggered_by = Some ''admin'',
               stories_processed = None, errors_count = None,
               run_config = \<lparr>limit = 50, story_types = [''topstories''], force_ipv4 = True\<rparr>,
               logs = None, error_message = None\<rparr>], next_id = 2, clock = 1, faults = []\<rparr>\<rparr>))"
  by (simp add: running_world_def trigger_scrape_def is_running_def idle_world_def
      ScraperManager_init_def make_config_def create_scraper_run_def next_fault_def environ_get_def)

lemma running_world_fields:
  "current_thread (mgr running_world) = Some first_thread"
  "current_run_id (mgr running_world) = Some 1"
  "alive running_world = {0}"
  "is_running running_world"
  "cancel_flag (mgr running_world) = False"
  "log_capture (mgr running_world) = Some LogCapture_init"
  "subscribers (mgr running_world) = [7, 8]"
  "callbacks running_world = quiet"
  "db_url (mgr running_world) = ''postgres://db''"
  "faults (db running_world) = []"
  "delivered running_world = [(7, status_message (PyInt 1) ''running'' []), (8, status_message (PyInt 1) ''running'' [])]"
  unfolding running_world_eq
  by (simp_all add: same_run_state_fields [OF notify_subscribers_same] is_running_def
      launch_def idle_world_def first_thread_def ScraperManager_init_def
      notify_subscribers_def call_callback_def quiet_def)

subsection \<open>The run table after the worker\<close>

lemma find_update_row:
  "find (\<lambda>r. run_id r = rid) (map (\<lambda>r. if run_id r = rid then f r else r) rows)
     = map_option f (find (\<lambda>r. run_id r = rid) rows)"
  if "\<And>r. run_id (f r) = run_id r"
  by (induction rows) (simp_all add: that)

lemma get_scraper_run_update:
  assumes "fst (next_fault d) = None"
  shows "fst (update_scraper_run rid st p e lg msg d) = None"
    and "get_scraper_run rid (snd (update_scraper_run rid st p e lg msg d))
      = map_option (\<lambda>r. r\<lparr>status := st, completed_at := Some (clock d),
                            stories_processed := Some p, errors_count := Some e, logs := lg,
                            error_message := msg\<rparr>)
          (get_scraper_run rid d)"
proof -
  obtain d' where nf: "next_fault d = (None, d')"
    using assms by (cases "next_fault d") simp
  then have d': "scraper_runs d' = scraper_runs d" "clock d' = clock d"
    by (auto simp: next_fault_def split: list.splits)
  show "fst (update_scraper_run rid st p e lg msg d) = None"
    by (simp add: update_scraper_run_def nf)
  show "get_scraper_run rid (snd (update_scraper_run rid st p e lg msg d))
      = map_option (\<lambda>r. r\<lparr>status := st, completed_at := Some (clock d),
                            stories_processed := Some p, errors_count := Some e, logs := lg,
                            error_message := msg\<rparr>)
          (get_scraper_run rid d)"
    by (simp add: update_scraper_run_def nf get_scraper_run_def d' find_update_row)
qed

lemma run_scraper_db:
  assumes lc: "log_capture (mgr w) = Some lc"
    and url: "CHR 0x00 \<notin> set (db_url (mgr w))"
    and ok: "fst (next_fault (db w)) = None"
    and eng: "run_engine eng (Some lc) = (None, Some lc', errors)"
  shows "fst (run_scraper eng rid lim types w) = None"
    and "db (snd (run_scraper eng rid lim types w))
      = snd (update_scraper_run rid ''completed'' (int (length (findall_story (get_logs lc'))))
               errors (Some (get_logs lc')) None (db w))"
proof -
  have "fst (update_scraper_run rid ''completed'' (int (length (findall_story (get_logs lc'))))
               errors (Some (get_logs lc')) None (db w)) = None"
    using ok by (rule get_scraper_run_update)
  then obtain d where u: "update_scraper_run rid ''completed''
      (int (length (findall_story (get_logs lc')))) errors (Some (get_logs lc')) None (db w)
      = (None, d)"
    by (metis prod.collapse)
  show "fst (run_scraper eng rid lim types w) = None"
    by (simp add: run_scraper_def try_body_def lc url eng u cleanup_def Let_def)
  show "db (snd (run_scraper eng rid lim types w))
      = snd (update_scraper_run rid ''completed'' (int (length (findall_story (get_logs lc'))))
               errors (Some (get_logs lc')) None (db w))"
    by (simp add: run_scraper_def try_body_def lc url eng u cleanup_def Let_def
        same_run_state_fields [OF notify_subscribers_same])
qed

lemma running_world_db:
  "db running_world =
     \<lparr>scraper_runs =
        [\<lparr>run_id = 1, started_at = 0, completed_at = None,
          status = ''running'', trigger_type = ''manual'', triggered_by = Some ''admin'',
          stories_processed = None, errors_count = None,
          run_config = \<lparr>limit = 50, story_types = [''topstories''], force_ipv4 = True\<rparr>,
          logs = None, error_message = None\<rparr>],
      next_id = 2, clock = 1, faults = []\<rparr>"
  unfolding running_world_eq
  by (simp add: same_run_state_fields [OF notify_subscribers_same] launch_def)

lemma three_stories:
  "findall_story
     (get_logs (writes LogCapture_init
        [''Processing story 101'', newline, ''Processing story 102'', newline,
         ''Processing story 103'', newline]))
   = [''101'', ''102'', ''103'']"
  by code_simp

lemma engine_error_msg_not_blank: "\<not> blank (engine_error_msg e)"
  by (simp add: engine_error_msg_def blank_def isspace_def)

subsection \<open>The run that a trigger starts\<close>

lemma trigger_scrape_created:
  assumes "trigger_scrape lim types username w = (Inr rid, w1)"
  shows "\<exists>d. create_scraper_run ''manual'' (Some username) (make_config lim types w) (db w)
              = (Inr rid, d)
           \<and> w1 = notify_subscribers (status_message (PyInt rid) ''running'' [])
                  (launch rid lim (story_types (make_config lim types w)) (w\<lparr>db := d\<rparr>))"
  using assms
  by (auto simp: trigger_scrape_def Let_def split: if_splits prod.splits sum.splits)

lemma create_scraper_run_row:
  assumes "create_scraper_run ttype by cfg d = (Inr rid, d')"
  shows "\<exists>r. get_scraper_run rid d' = Some r"
proof -
  from assms obtain row where "scraper_runs d' = scraper_runs (snd (next_fault d)) @ [row]"
    and "run_id row = rid"
    by (auto simp: create_scraper_run_def split: prod.splits option.splits)
  then have "\<exists>x \<in> set (scraper_runs d'). run_id x = rid"
    by auto
  then have "find (\<lambda>r. run_id r = rid) (scraper_runs d') \<noteq> None"
    by (auto simp: find_None_iff)
  then show ?thesis
    by (auto simp: get_scraper_run_def)
qed

lemma three_markers_count:
  "marker_count (get_logs (writes LogCapture_init three_markers)) = 3"
  using three_stories findall_story_counts_markers
          [of "get_logs (writes LogCapture_init three_markers)"]
  by (simp add: three_markers_def)

subsection \<open>Subscribers that only take their messages\<close>







lemma trigger_scrape_idle:
  "trigger_scrape 50 (Some [''topstories'']) ''admin'' idle_world = (Inr 1, running_world)"
proof -
  have "fst (trigger_scrape 50 (Some [''topstories'']) ''admin'' idle_world) = Inr 1"
    by (simp add: trigger_scrape_def is_running_def idle_world_def ScraperManager_init_def
        create_scraper_run_def next_fault_def Let_def)
  then show ?thesis
    by (simp add: running_world_def prod_eq_iff)
qed

lemma idle_world_fields:
  "callbacks idle_world = quiet" "db_url (mgr idle_world) = ''postgres://db''"
  "subscribers (mgr idle_world) = [7, 8]" "delivered idle_world = []"
  by (simp_all add: idle_world_def ScraperManager_init_def)


subsection \<open>A single caller of the steps\<close>

lemma trigger_steps_sequential:
  "interleave a [0, 0, 0, 0] [AtCheck] w
     = (case trigger_scrape (arg_limit a) (arg_story_types a) (arg_username a) w of
          (r, w') \<Rightarrow> ([Left r], w'))"
  by (simp add: trigger_scrape_def Let_def split: prod.splits sum.splits)


subsection \<open>Statements of the database in turn\<close>









































subsection \<open>The calls received only grow\<close>














subsection \<open>Every caller leaves and the worker ends\<close>








subsection \<open>Steps taken one after another are the methods\<close>

lemma step_then:
  assumes "\<exists>n. (f ^^ n) y = z" and "f x = y"
  shows "\<exists>n. (f ^^ n) x = z"
proof -
  from assms(1) obtain n where "(f ^^ n) y = z"
    by blast
  then have "(f ^^ Suc n) x = z"
    using assms(2) by (simp add: funpow_swap1)
  then show ?thesis
    by blast
qed

lemma moves [simp]:
  "trigger_move a (tat, w) = trigger_at_step a tat w"
  "cancel_move (cat, w) = cancel_at_step cat w"
  "worker_move eng t (wat, w) = worker_at_step eng t wat w"
  by (simp_all add: trigger_move_def cancel_move_def worker_move_def)

lemma step_here: "\<exists>n. (f ^^ n) x = x"
  by (rule exI [of _ 0]) simp

lemma trigger_publish_steps:
  "\<exists>n. (trigger_move a ^^ n) (TPublish rid (Calling m cs), w)
     = (TLeft (Inr rid), notify_each cs m w)"
proof (induction cs arbitrary: w)
  case Nil
  have "trigger_move a (TPublish rid (Calling m []), w) = (TLeft (Inr rid), w)"
    by simp
  from step_then [OF step_here [where f = "trigger_move a"] this] show ?case
    by simp
next
  case (Cons c cs)
  have "trigger_move a (TPublish rid (Calling m (c # cs)), w)
      = (TPublish rid (Calling m cs), snd (call_callback c m w))"
    by simp
  from step_then [OF Cons.IH this] show ?case
    by simp
qed

lemma trigger_at_steps_sequential:
  "\<exists>n. (trigger_move a ^^ n) (TCheck, w)
     = (TLeft (fst (trigger_scrape (arg_limit a) (arg_story_types a) (arg_username a) w)),
        snd (trigger_scrape (arg_limit a) (arg_story_types a) (arg_username a) w))"
proof (cases "is_running w")
  case True
  have "trigger_move a (TCheck, w) = (TLeft (Inl already_running), w)"
    using True by simp
  from step_then [OF step_here [where f = "trigger_move a"] this] show ?thesis
    using True by (simp add: trigger_scrape_def)
next
  case False
  let ?cfg = "make_config (arg_limit a) (arg_story_types a) w"
  obtain r d where c: "create_scraper_run ''manual'' (Some (arg_username a)) ?cfg (db w) = (r, d)"
    by (cases "create_scraper_run ''manual'' (Some (arg_username a)) ?cfg (db w)")
  show ?thesis
  proof (cases r)
    case (Inl e)
    have 1: "trigger_move a (TCheck, w) = (TCreate, w)"
      using False by simp
    have 2: "trigger_move a (TCreate, w) = (TLeft (Inl e), w\<lparr>db := d\<rparr>)"
      using c Inl by (simp add: Let_def)
    have "trigger_scrape (arg_limit a) (arg_story_types a) (arg_username a) w
        = (Inl e, w\<lparr>db := d\<rparr>)"
      using False c Inl by (simp add: trigger_scrape_def Let_def)
    then show ?thesis
      using step_then [OF step_then [OF step_here [where f = "trigger_move a"] 2] 1] by simp
  next
    case (Inr rid)
    let ?w = "launch rid (arg_limit a) (story_types ?cfg) (w\<lparr>db := d\<rparr>)"
    let ?m = "status_message (PyInt rid) ''running'' []"
    have 1: "trigger_move a (TCheck, w) = (TCreate, w)"
      using False by simp
    have 2: "trigger_move a (TCreate, w) = (TLaunch rid ?cfg, w\<lparr>db := d\<rparr>)"
      using c Inr by (simp add: Let_def)
    have 3: "trigger_move a (TLaunch rid ?cfg, w\<lparr>db := d\<rparr>)
        = (TPublish rid (Snapshot ?m), ?w)"
      by simp
    have 4: "trigger_move a (TPublish rid (Snapshot ?m), ?w)
        = (TPublish rid (Calling ?m (subscribers (mgr ?w))), ?w)"
      by simp
    have "trigger_scrape (arg_limit a) (arg_story_types a) (arg_username a) w
        = (Inr rid, notify_each (subscribers (mgr ?w)) ?m ?w)"
      using False c Inr by (simp add: trigger_scrape_def Let_def notify_subscribers_def)
    then show ?thesis
      using step_then [OF step_then [OF step_then [OF step_then
              [OF trigger_publish_steps 4] 3] 2] 1]
      by simp
  qed
qed

lemma cancel_publish_steps:
  "\<exists>n. (cancel_move ^^ n) (CPublish rid (Calling m cs), w)
     = (Accepted rid, notify_each cs m w)"
proof (induction cs arbitrary: w)
  case Nil
  have "cancel_move (CPublish rid (Calling m []), w) = (Accepted rid, w)"
    by simp
  from step_then [OF step_here [where f = "cancel_move"] this] show ?case
    by simp
next
  case (Cons c cs)
  have "cancel_move (CPublish rid (Calling m (c # cs)), w)
      = (CPublish rid (Calling m cs), snd (call_callback c m w))"
    by simp
  from step_then [OF Cons.IH this] show ?case
    by simp
qed

lemma cancel_at_steps_sequential:
  "\<exists>n. (cancel_move ^^ n) (CCheck, w)
     = (if fst (cancel_scrape w)
        then Accepted (case current_run_id (mgr w) of None \<Rightarrow> PyNone | Some i \<Rightarrow> PyInt i)
        else Refused,
        snd (cancel_scrape w))"
proof (cases "is_running w")
  case False
  have "cancel_move (CCheck, w) = (Refused, w)"
    using False by simp
  from step_then [OF step_here [where f = "cancel_move"] this] show ?thesis
    using False by (simp add: cancel_scrape_def)
next
  case True
  let ?w = "w\<lparr>mgr := (mgr w)\<lparr>cancel_flag := True\<rparr>\<rparr>"
  let ?rid = "case current_run_id (mgr w) of None \<Rightarrow> PyNone | Some i \<Rightarrow> PyInt i"
  let ?m = "status_message ?rid ''cancelled'' []"
  have 1: "cancel_move (CCheck, w) = (CSetFlag, w)"
    using True by simp
  have 2: "cancel_move (CSetFlag, w) = (CReadId, ?w)"
    by simp
  have 3: "cancel_move (CReadId, ?w) = (CPublish ?rid (Snapshot ?m), ?w)"
    by (simp add: get_current_run_id_def Let_def)
  have 4: "cancel_move (CPublish ?rid (Snapshot ?m), ?w)
      = (CPublish ?rid (Calling ?m (subscribers (mgr ?w))), ?w)"
    by simp
  have "cancel_scrape w = (True, notify_each (subscribers (mgr ?w)) ?m ?w)"
    using True by (simp add: cancel_scrape_def Let_def get_current_run_id_def
        notify_subscribers_def)
  then show ?thesis
    using step_then [OF step_then [OF step_then [OF step_then
            [OF cancel_publish_steps 4] 3] 2] 1]
    by simp
qed

lemma worker_publish_steps:
  "\<exists>n. (worker_move eng t ^^ n) (WPublish (Calling m cs), w)
     = (WDone None, (cleanup (notify_each cs m w))\<lparr>alive := alive (notify_each cs m w) - {tid t}\<rparr>)"
proof (induction cs arbitrary: w)
  case Nil
  have 1: "worker_move eng t (WPublish (Calling m []), w) = (WFinally None, w)"
    by simp
  have 2: "worker_move eng t (WFinally None, w) = (WExit None, cleanup w)"
    by simp
  have 3: "worker_move eng t (WExit None, cleanup w)
      = (WDone None, (cleanup w)\<lparr>alive := alive w - {tid t}\<rparr>)"
    by (simp add: cleanup_def)
  show ?case
    using step_then [OF step_then [OF step_then [OF step_here [where f = "worker_move eng t"] 3] 2] 1] by simp
next
  case (Cons c cs)
  have "worker_move eng t (WPublish (Calling m (c # cs)), w)
      = (WPublish (Calling m cs), snd (call_callback c m w))"
    by simp
  from step_then [OF Cons.IH this] show ?case
    by simp
qed

lemma worker_end_steps:
  "\<exists>n. (worker_move eng t ^^ n) (WFinally r, w)
     = (WDone r, (cleanup w)\<lparr>alive := alive w - {tid t}\<rparr>)"
proof -
  have 2: "worker_move eng t (WFinally r, w) = (WExit r, cleanup w)"
    by simp
  have 3: "worker_move eng t (WExit r, cleanup w)
      = (WDone r, (cleanup w)\<lparr>alive := alive w - {tid t}\<rparr>)"
    by (simp add: cleanup_def)
  show ?thesis
    using step_then [OF step_then [OF step_here [where f = "worker_move eng t"] 3] 2] by simp
qed

lemma worker_snapshot_steps:
  "\<exists>n. (worker_move eng t ^^ n) (WPublish (Snapshot m), w)
     = (WDone None,
        (cleanup (notify_subscribers m w))\<lparr>alive := alive (notify_subscribers m w) - {tid t}\<rparr>)"
proof -
  have "worker_move eng t (WPublish (Snapshot m), w)
      = (WPublish (Calling m (subscribers (mgr w))), w)"
    by simp
  from step_then [OF worker_publish_steps this] show ?thesis
    by (simp add: notify_subscribers_def)
qed

lemma worker_handler_steps:
  "\<exists>n. (worker_move eng t ^^ n) (WHandler e lco, w)
     = (WDone (fst (handle_failure e lco (t_run_id t) w)),
        (cleanup (snd (handle_failure e lco (t_run_id t) w)))
          \<lparr>alive := alive (snd (handle_failure e lco (t_run_id t) w)) - {tid t}\<rparr>)"
proof -
  let ?lg = "case lco of Some lc \<Rightarrow> get_logs lc | None \<Rightarrow> exc_str e"
  obtain r d where u: "update_scraper_run (t_run_id t) ''failed'' 0 0 (Some ?lg)
      (Some (exc_str e)) (db w) = (r, d)"
    by (cases "update_scraper_run (t_run_id t) ''failed'' 0 0 (Some ?lg)
      (Some (exc_str e)) (db w)")
  show ?thesis
  proof (cases r)
    case None
    have "worker_move eng t (WHandler e lco, w)
        = (WPublish (Snapshot (status_message (PyInt (t_run_id t)) ''failed''
                [(''error_message'', PyStr (exc_str e))])), w\<lparr>db := d\<rparr>)"
      using u None by (simp add: Let_def)
    from step_then [OF worker_snapshot_steps this] show ?thesis
      using u None by (simp add: handle_failure_def Let_def)
  next
    case (Some e')
    have "handle_failure e lco (t_run_id t) w = (Some e', w\<lparr>db := d\<rparr>)"
      using u Some by (simp add: handle_failure_def Let_def)
    moreover have "worker_move eng t (WHandler e lco, w)
        = (WFinally (Some e'), w\<lparr>db := d\<rparr>)"
      using u Some by (simp add: Let_def)
    from step_then [OF worker_end_steps this] have
      "\<exists>n. (worker_move eng t ^^ n) (WHandler e lco, w)
         = (WDone (Some e'), (cleanup (w\<lparr>db := d\<rparr>))\<lparr>alive := alive (w\<lparr>db := d\<rparr>) - {tid t}\<rparr>)" .
    ultimately show ?thesis
      by simp
  qed
qed

lemma worker_at_steps_sequential:
  "\<exists>n. (worker_move eng t ^^ n) (WStart, w)
     = (WDone (fst (thread_run eng t w)), snd (thread_run eng t w))"
proof (cases "CHR 0x00 \<in> set (db_url (mgr w))")
  case True
  let ?w0 = "w\<lparr>environ := (environ w)(''HN_LIMIT'' \<mapsto> str_int (t_limit t))\<rparr>"
  have 1: "worker_move eng t (WStart, w)
      = (WFinally (Some unbound_log_capture), ?w0)"
    using True by (simp add: Let_def)
  have "thread_run eng t w
      = (Some unbound_log_capture, (cleanup ?w0)\<lparr>alive := alive ?w0 - {tid t}\<rparr>)"
    using True by (simp add: thread_run_def run_scraper_def Let_def cleanup_def)
  then show ?thesis
    using step_then [OF worker_end_steps 1] by simp
next
  case False
  let ?w1 = "w\<lparr>environ := (environ w)(''HN_LIMIT'' \<mapsto> str_int (t_limit t),
                 ''SUPABASE_DB_URL'' \<mapsto> db_url (mgr w))\<rparr>"
  obtain x lco errors where e: "run_engine eng (log_capture (mgr w)) = (x, lco, errors)"
    by (cases "run_engine eng (log_capture (mgr w))")
  show ?thesis
  proof (cases x)
    case (Some ex)
    let ?w2 = "?w1\<lparr>mgr := (mgr ?w1)\<lparr>log_capture := lco\<rparr>\<rparr>"
    have 1: "worker_move eng t (WStart, w) = (WHandler ex lco, ?w2)"
      using False e Some by (simp add: Let_def)
    have "thread_run eng t w
        = (fst (handle_failure ex lco (t_run_id t) ?w2),
           (cleanup (snd (handle_failure ex lco (t_run_id t) ?w2)))
             \<lparr>alive := alive (snd (handle_failure ex lco (t_run_id t) ?w2)) - {tid t}\<rparr>)"
      using False e Some
      by (simp add: thread_run_def run_scraper_def try_body_def Let_def cleanup_def
          split: prod.splits)
    then show ?thesis
      using step_then [OF worker_handler_steps 1] by simp
  next
    case None
    show ?thesis
    proof (cases lco)
      case N: None
      have 1: "worker_move eng t (WStart, w)
          = (WHandler (none_has_no ''get_logs'') None, ?w1)"
        using False e None N by (simp add: Let_def)
      have "thread_run eng t w
          = (fst (handle_failure (none_has_no ''get_logs'') None (t_run_id t) ?w1),
             (cleanup (snd (handle_failure (none_has_no ''get_logs'') None (t_run_id t) ?w1)))
               \<lparr>alive := alive (snd (handle_failure (none_has_no ''get_logs'') None
                    (t_run_id t) ?w1)) - {tid t}\<rparr>)"
        using False e None N
        by (simp add: thread_run_def run_scraper_def try_body_def Let_def cleanup_def
            split: prod.splits)
      then show ?thesis
        using step_then [OF worker_handler_steps 1] by simp
    next
      case (Some lc)
      let ?w2 = "?w1\<lparr>mgr := (mgr ?w1)\<lparr>log_capture := Some lc\<rparr>\<rparr>"
      let ?n = "int (length (findall_story (get_logs lc)))"
      let ?m = "status_message (PyInt (t_run_id t)) ''completed''
                [(''stories_processed'', PyInt ?n), (''errors_count'', PyInt errors)]"
      have 1: "worker_move eng t (WStart, w) = (WUpdate lc errors, ?w2)"
        using False e None Some by (simp add: Let_def)
      obtain r d where u: "update_scraper_run (t_run_id t) ''completed'' ?n errors
          (Some (get_logs lc)) None (db w) = (r, d)"
        by (cases "update_scraper_run (t_run_id t) ''completed'' ?n errors
          (Some (get_logs lc)) None (db w)")
      show ?thesis
      proof (cases r)
        case R: None
        have 2: "worker_move eng t (WUpdate lc errors, ?w2)
            = (WPublish (Snapshot ?m), ?w2\<lparr>db := d\<rparr>)"
          using u R by (simp add: Let_def)
        have "thread_run eng t w
            = (None, (cleanup (notify_subscribers ?m (?w2\<lparr>db := d\<rparr>)))
                 \<lparr>alive := alive (notify_subscribers ?m (?w2\<lparr>db := d\<rparr>)) - {tid t}\<rparr>)"
          using False e None Some u R
          by (simp add: thread_run_def run_scraper_def try_body_def Let_def cleanup_def)
        then show ?thesis
          using step_then [OF step_then [OF worker_snapshot_steps 2] 1] by simp
      next
        case (Some ex)
        have 2: "worker_move eng t (WUpdate lc errors, ?w2)
            = (WHandler ex (Some lc), ?w2\<lparr>db := d\<rparr>)"
          using u Some by (simp add: Let_def)
        have "thread_run eng t w
            = (fst (handle_failure ex (Some lc) (t_run_id t) (?w2\<lparr>db := d\<rparr>)),
               (cleanup (snd (handle_failure ex (Some lc) (t_run_id t) (?w2\<lparr>db := d\<rparr>))))
                 \<lparr>alive := alive (snd (handle_failure ex (Some lc) (t_run_id t)
                      (?w2\<lparr>db := d\<rparr>))) - {tid t}\<rparr>)"
          using False e None \<open>lco = Some lc\<close> u Some
          by (simp add: thread_run_def run_scraper_def try_body_def Let_def cleanup_def
              split: prod.splits)
        then show ?thesis
          using step_then [OF step_then [OF worker_handler_steps 2] 1] by simp
      qed
    qed
  qed
qed

subsection \<open>A schedule with a late cancellation\<close>






section \<open>The log buffer\<close>



section \<open>Notification\<close>

text \<open>
  C8. \<^verbatim>\<open>_notify_subscribers\<close> calls the subscribers of the list as it was when the
  notification began, each once and in order, whatever the callbacks do: a callback
  that raises, or that changes the subscriber list while it runs, does not keep any
  other subscriber of that list from receiving the message.
\<close>

theorem notify_snapshot_isolated:
  "delivered (notify_subscribers m w) = delivered w @ map (\<lambda>c. (c, m)) (subscribers (mgr w))
   \<and> (raises (callbacks w c m h) = Some e \<and> c \<in> set (subscribers (mgr w))
        \<and> c' \<in> set (subscribers (mgr w))
      \<longrightarrow> (c', m) \<in> set (delivered (notify_subscribers m w)))"
  by (simp add: notify_subscribers_def notify_each_delivered)

theorem notify_snapshot_isolated_witness:
  "raises (callbacks rowdy_world 7 [(''status'', PyStr ''running'')] [])
     = Some (Exn OtherException ''listener broke'')
   \<and> 7 \<in> set (subscribers (mgr rowdy_world)) \<and> 8 \<in> set (subscribers (mgr rowdy_world))
   \<and> (8, [(''status'', PyStr ''running'')])
        \<in> set (delivered (notify_subscribers [(''status'', PyStr ''running'')] rowdy_world))
   \<and> delivered (notify_subscribers [(''status'', PyStr ''running'')] rowdy_world)
       = [(7, [(''status'', PyStr ''running'')]), (8, [(''status'', PyStr ''running'')])]
   \<and> subscribers (mgr (notify_subscribers [(''status'', PyStr ''running'')] rowdy_world)) = [7]"
  using notify_snapshot_isolated
          [of "[(''status'', PyStr ''running'')]" rowdy_world 7 "[]"
              "Exn OtherException ''listener broke''" 8]
  by (simp add: rowdy_world_def idle_world_def rowdy_def ScraperManager_init_def
        notify_subscribers_def call_callback_def unsubscribe_def)

section \<open>The end of a run\<close>

text \<open>
  C2. However the worker ends (the engine returns, the engine raises, the update of the
  run record fails, once or in the handler too, a cancellation was requested or not),
  after the thread has run \<^verbatim>\<open>is_running\<close> is false, \<^verbatim>\<open>get_current_run_id\<close> is
  \<^verbatim>\<open>None\<close>, and the thread and buffer fields are \<^verbatim>\<open>None\<close>.
\<close>

theorem worker_always_clears:
  "\<not> is_running (snd (thread_run eng t w))
   \<and> get_current_run_id (snd (thread_run eng t w)) = None
   \<and> current_thread (mgr (snd (thread_run eng t w))) = None
   \<and> log_capture (mgr (snd (thread_run eng t w))) = None"
  by (simp add: is_running_def get_current_run_id_def thread_run_mgr run_scraper_cleared)

theorem worker_always_clears_witness:
  "fst (thread_run timeout_engine first_thread failing_db_world)
     = Some (Exn DatabaseError ''gone'')
   \<and> \<not> is_running (snd (thread_run timeout_engine first_thread failing_db_world))
   \<and> get_current_run_id (snd (thread_run timeout_engine first_thread failing_db_world)) = None"
  using worker_always_clears [of timeout_engine first_thread failing_db_world]
  by (simp add: thread_run_def run_scraper_def try_body_def run_engine_def handle_failure_def
        update_scraper_run_def next_fault_def running_world_fields failing_db_world_def
        timeout_engine_def split: prod.splits)

section \<open>Waiting\<close>

text \<open>
  C10. When the field \<^verbatim>\<open>current_thread\<close> is \<^verbatim>\<open>None\<close>, \<^verbatim>\<open>wait_for_completion\<close> returns
  \<^verbatim>\<open>True\<close> for every timeout, joins no thread and changes nothing, whatever the
  worker could do meanwhile. That is the case in an idle manager and after a worker has
  run to its end.
\<close>

theorem wait_for_completion_no_thread:
  "(current_thread (mgr w) = None \<longrightarrow> wait_for_completion timeout progress w = (Inr True, w))
   \<and> wait_for_completion timeout progress (snd (thread_run eng t w))
       = (Inr True, snd (thread_run eng t w))"
  by (simp add: wait_for_completion_def thread_run_mgr run_scraper_cleared)

theorem wait_for_completion_no_thread_witness:
  "current_thread (mgr idle_world) = None
   \<and> wait_for_completion (Some (5 :: int)) (Some (Runs [] None)) idle_world = (Inr True, idle_world)"
  using wait_for_completion_no_thread
          [of idle_world "Some (5 :: int)" "Some (Runs [] None)" "Runs [] None" first_thread]
  by (simp add: idle_world_def ScraperManager_init_def)

section \<open>Triggering while a run is active\<close>

text \<open>
  C3. When \<^verbatim>\<open>is_running\<close> is true, \<^verbatim>\<open>trigger_scrape\<close> raises the error "Scraper is
  already running" and returns no run id; the world is as before, so no row is added to
  the run table and the manager's fields are unchanged. The first step of a concurrent
  caller does the same.
\<close>

theorem trigger_while_running:
  "is_running w \<Longrightarrow>
     trigger_scrape lim types username w = (Inl already_running, w)
     \<and> trigger_step a AtCheck w = (Left (Inl already_running), w)"
  by (simp add: trigger_scrape_def)

theorem trigger_while_running_witness:
  "is_running running_world
   \<and> trigger_scrape 50 None ''admin'' running_world = (Inl already_running, running_world)
   \<and> get_current_run_id running_world = Some 1"
  using trigger_while_running [of running_world 50 None "''admin''" scenario_args]
  by (simp add: running_world_fields get_current_run_id_def)

section \<open>Cancelling\<close>

text \<open>
  C7. \<^verbatim>\<open>cancel_scrape\<close> returns \<^verbatim>\<open>False\<close> when no run is active and changes nothing,
  the flag included. When a run is active it returns \<^verbatim>\<open>True\<close> with the flag set; the
  thread is still the current thread and still alive, the run id, the buffer and the run
  table are as before.
\<close>

theorem cancel_scrape_cooperative:
  "(\<not> is_running w \<longrightarrow> cancel_scrape w = (False, w))
   \<and> (is_running w \<longrightarrow>
        fst (cancel_scrape w) = True
        \<and> cancel_flag (mgr (snd (cancel_scrape w)))
        \<and> current_thread (mgr (snd (cancel_scrape w))) = current_thread (mgr w)
        \<and> alive (snd (cancel_scrape w)) = alive w
        \<and> is_running (snd (cancel_scrape w))
        \<and> current_run_id (mgr (snd (cancel_scrape w))) = current_run_id (mgr w)
        \<and> log_capture (mgr (snd (cancel_scrape w))) = log_capture (mgr w)
        \<and> db (snd (cancel_scrape w)) = db w)"
  by (simp add: cancel_scrape_def Let_def is_running_def
      same_run_state_fields [OF notify_subscribers_same] split: option.splits)

theorem cancel_scrape_cooperative_witness:
  "\<not> is_running idle_world \<and> cancel_scrape idle_world = (False, idle_world)
   \<and> is_running running_world \<and> fst (cancel_scrape running_world) = True
   \<and> cancel_flag (mgr (snd (cancel_scrape running_world)))
   \<and> \<not> cancel_flag (mgr running_world)
   \<and> current_thread (mgr (snd (cancel_scrape running_world))) = Some first_thread
   \<and> alive (snd (cancel_scrape running_world)) = {0}
   \<and> is_running (snd (cancel_scrape running_world))"
  using cancel_scrape_cooperative [of idle_world] cancel_scrape_cooperative [of running_world]
  by (simp add: running_world_fields) (simp add: is_running_def idle_world_def ScraperManager_init_def)

section \<open>The record of a finished run\<close>

text \<open>
  C5, as the code has it. Take a run that \<^verbatim>\<open>trigger_scrape\<close> has started, with a
  database URL without a null character, so that the worker reaches its update of the
  run record. When the engine returns normally and that update succeeds, the worker
  ends without an exception and the record of the run has status \<^verbatim>\<open>completed\<close>, no
  error message, 0 errors, the captured text as its log, and as
  \<^verbatim>\<open>stories_processed\<close> the number of markers in that text. With three markers in
  the output the count is 3.
\<close>

theorem completed_run_counts_stories:
  assumes trig: "trigger_scrape lim types username w = (Inr rid, w1)"
    and url: "CHR 0x00 \<notin> set (db_url (mgr w))"
    and ok: "fst (next_fault (db w1)) = None"
  shows "fst (run_scraper (Runs out None) rid lim (story_types (make_config lim types w)) w1)
      = None
    \<and> (\<exists>r. get_scraper_run rid
              (db (snd (run_scraper (Runs out None) rid lim
                     (story_types (make_config lim types w)) w1)))
            = Some r
          \<and> status r = ''completed''
          \<and> stories_processed r
              = Some (int (marker_count (get_logs (writes LogCapture_init out))))
          \<and> errors_count r = Some 0
          \<and> error_message r = None
          \<and> logs r = Some (get_logs (writes LogCapture_init out)))"
proof -
  obtain d where c: "create_scraper_run ''manual'' (Some username) (make_config lim types w) (db w)
              = (Inr rid, d)"
    and w1: "w1 = notify_subscribers (status_message (PyInt rid) ''running'' [])
                  (launch rid lim (story_types (make_config lim types w)) (w\<lparr>db := d\<rparr>))"
    using trigger_scrape_created [OF trig] by blast
  have lc1: "log_capture (mgr w1) = Some LogCapture_init"
    and url1: "CHR 0x00 \<notin> set (db_url (mgr w1))"
    and db1: "db w1 = d"
    using url
    by (simp_all add: w1 same_run_state_fields [OF notify_subscribers_same] launch_def)
  obtain r0 where r0: "get_scraper_run rid (db w1) = Some r0"
    using create_scraper_run_row [OF c] db1 by auto
  have eng: "run_engine (Runs out None) (Some LogCapture_init)
      = (None, Some (writes LogCapture_init out), 0)"
    by (simp add: run_engine_def)
  show ?thesis
    using run_scraper_db [OF lc1 url1 ok eng] get_scraper_run_update(2) [OF ok] r0
    by (simp add: findall_story_counts_markers)
qed

theorem completed_run_counts_stories_witness:
  "trigger_scrape 50 (Some [''topstories'']) ''admin'' idle_world = (Inr 1, running_world)
   \<and> CHR 0x00 \<notin> set (db_url (mgr idle_world))
   \<and> fst (next_fault (db running_world)) = None
   \<and> fst (run_scraper (Runs three_markers None) 1 50 [''topstories''] running_world) = None
   \<and> (\<exists>r. get_scraper_run 1
              (db (snd (run_scraper (Runs three_markers None) 1 50 [''topstories'']
                     running_world)))
            = Some r
          \<and> status r = ''completed'' \<and> stories_processed r = Some 3
          \<and> errors_count r = Some 0 \<and> error_message r = None)"
  using completed_run_counts_stories
          [of 50 "Some [''topstories'']" "''admin''" idle_world 1 running_world three_markers]
  by (auto simp add: trigger_scrape_idle idle_world_fields running_world_db next_fault_def
        three_markers_count make_config_def)

text \<open>
  C5 as stated fails: the engine returns normally with three markers in its output,
  the update of the worker's body fails, and the record the handler writes has status
  \<^verbatim>\<open>failed\<close> and 0 stories processed.
\<close>

theorem completed_run_counts_stories_counterexample:
  "marker_count (get_logs (writes LogCapture_init three_markers)) = 3
   \<and> fst (thread_run (Runs three_markers None) first_thread flaky_db_world) = None
   \<and> map_option (\<lambda>r. (status r, stories_processed r, error_message r))
        (get_scraper_run 1
           (db (snd (thread_run (Runs three_markers None) first_thread flaky_db_world))))
      = Some (''failed'', Some 0, Some ''gone'')"
  by (simp add: three_markers_count thread_run_def run_scraper_def try_body_def run_engine_def
      handle_failure_def Let_def flaky_db_world_def running_world_fields running_world_db
      update_scraper_run_def next_fault_def cleanup_def first_thread_def get_scraper_run_def
      same_run_state_fields [OF notify_subscribers_same] split: prod.splits)

text \<open>
  C1, as the code has it. Take a worker with its buffer bound and a database URL
  without a null character. When the engine raises while it runs and the update of the
  run record succeeds, the worker ends without an exception, so nothing reaches the
  caller of \<^verbatim>\<open>trigger_scrape\<close>; the record of the run has status \<^verbatim>\<open>completed\<close>, no
  error message and an error count of 1, and the captured text ends with the line
  "ERROR: Scraper failed: " followed by the exception's message (for an
  \<^verbatim>\<open>ImportError\<close>, "ERROR: Could not import scrape_hn module: " followed by it).
\<close>

theorem engine_exception_recorded:
  assumes "log_capture (mgr w) = Some lc"
    and "CHR 0x00 \<notin> set (db_url (mgr w))"
    and "fst (next_fault (db w)) = None"
    and "get_scraper_run rid (db w) = Some r"
  shows "fst (run_scraper (Runs out (Some e)) rid lim types w) = None
    \<and> get_scraper_run rid (db (snd (run_scraper (Runs out (Some e)) rid lim types w)))
        = Some (r\<lparr>status := ''completed'', completed_at := Some (clock (db w)),
                 stories_processed :=
                   Some (int (length (findall_story
                     (get_logs (write_lc (writes lc out) (engine_error_msg e)))))),
                 errors_count := Some 1,
                 logs := Some (get_logs (write_lc (writes lc out) (engine_error_msg e))),
                 error_message := None\<rparr>)
    \<and> lines (write_lc (writes lc out) (engine_error_msg e))
        = lines (writes lc out) @ [rstrip newline (engine_error_msg e)]"
proof -
  have eng: "run_engine (Runs out (Some e)) (Some lc)
      = (None, Some (write_lc (writes lc out) (engine_error_msg e)), 1)"
    by (simp add: run_engine_def)
  have lg: "lines (write_lc (writes lc out) (engine_error_msg e))
        = lines (writes lc out) @ [rstrip newline (engine_error_msg e)]"
    by (simp add: write_lc_def strip_Nil_iff_blank engine_error_msg_not_blank)
  show ?thesis
    using run_scraper_db [OF assms(1-3) eng] get_scraper_run_update(2) [OF assms(3)] assms(4) lg
    by simp
qed

theorem engine_exception_recorded_witness:
  "fst (run_scraper (Runs [] (Some (Exn OtherException ''network timeout'')))
          1 50 [''topstories''] running_world) = None
   \<and> map_option (\<lambda>r. (status r, errors_count r, logs r, error_message r))
        (get_scraper_run 1 (db (snd (run_scraper
          (Runs [] (Some (Exn OtherException ''network timeout'')))
          1 50 [''topstories''] running_world))))
      = Some (''completed'', Some 1, Some ''ERROR: Scraper failed: network timeout'', None)"
  using engine_exception_recorded
          [of running_world LogCapture_init 1 _ "[]" "Exn OtherException ''network timeout''"
              50 "[''topstories'']"]
  by (auto simp add: running_world_fields running_world_db get_scraper_run_def next_fault_def
        writes_def LogCapture_init_def engine_error_msg_def rstrip_def get_logs_def)

text \<open>
  C1 as stated fails: in the scenario of the specification, an engine that raises
  "network timeout" leaves the record with status \<^verbatim>\<open>completed\<close> and no error message.
\<close>

theorem engine_exception_counterexample:
  "map (\<lambda>r. (status r, error_message r))
     (scraper_runs (db (snd (thread_run (Runs [] (Some (Exn OtherException ''network timeout'')))
        first_thread running_world))))
   = [(''completed'', None)]"
  by (simp add: thread_run_def run_scraper_def try_body_def run_engine_def Let_def
      running_world_fields running_world_db update_scraper_run_def next_fault_def cleanup_def
      first_thread_def same_run_state_fields [OF notify_subscribers_same] split: prod.splits)

section \<open>The notifications of a run\<close>




section \<open>Two concurrent callers\<close>

text \<open>
  C4. The check \<^verbatim>\<open>is_running\<close> and the launch are two critical sections, not one. On
  the idle manager, the schedule in which both callers pass the check before either
  launches lets both calls return a run id: two threads are alive and two rows of the
  run table are in status \<^verbatim>\<open>running\<close>.
\<close>

theorem concurrent_triggers_both_launch:
  "fst (interleave scenario_args [0, 1, 0, 0, 1, 1, 0, 1] [AtCheck, AtCheck] idle_world)
     = [Left (Inr 1), Left (Inr 2)]
   \<and> alive (snd (interleave scenario_args [0, 1, 0, 0, 1, 1, 0, 1] [AtCheck, AtCheck] idle_world))
     = {0, 1}
   \<and> map run_id
       (running_rows (snd (interleave scenario_args [0, 1, 0, 0, 1, 1, 0, 1] [AtCheck, AtCheck]
          idle_world)))
     = [1, 2]"
  by (simp add: scenario_args_def idle_world_def ScraperManager_init_def is_running_def
      make_config_def environ_get_def create_scraper_run_def next_fault_def launch_def
      running_rows_def same_run_state_fields [OF notify_subscribers_same] Let_def
      insert_commute)

end
